theory Spec2Isabelle
  imports Main
begin

section \<open>JavaScript values\<close>

text \<open>
  A JavaScript string is a sequence of UTF-16 code units; it is modelled as the list of
  the code units' values. \<open>lit\<close> turns an ASCII literal of the source into such a list.
\<close>

type_synonym jsstring = "nat list"

definition lit :: "string \<Rightarrow> jsstring" where
  "lit s = map of_char s"

text \<open>
  The values \<open>JSON.parse\<close> can return, and \<open>undefined\<close> (what reading a missing
  property gives). An object is the list of its own properties, the first binding of a key
  being the property's value. Numbers are carried through and only tested for being zero.
\<close>

datatype jsval =
    JUndefined
  | JNull
  | JBool bool
  | JNum int
  | JStr jsstring
  | JArr "jsval list"
  | JObj "(jsstring \<times> jsval) list"

datatype exn = TypeError

text \<open>\<open>!v\<close> is true exactly for the falsy values.\<close>

fun falsy :: "jsval \<Rightarrow> bool" where
  "falsy JUndefined = True"
| "falsy JNull = True"
| "falsy (JBool b) = (\<not> b)"
| "falsy (JNum n) = (n = 0)"
| "falsy (JStr s) = (s = [])"
| "falsy (JArr _) = False"
| "falsy (JObj _) = False"

text \<open>
  \<open>v.k\<close> for the property names the source reads (none of them is defined on a
  prototype): a TypeError on \<open>null\<close> and \<open>undefined\<close>, the own property of an object,
  \<open>undefined\<close> otherwise.
\<close>

fun get_prop :: "jsval \<Rightarrow> jsstring \<Rightarrow> exn + jsval" where
  "get_prop JUndefined k = Inl TypeError"
| "get_prop JNull k = Inl TypeError"
| "get_prop (JObj kvs) k = Inr (case map_of kvs k of None \<Rightarrow> JUndefined | Some v \<Rightarrow> v)"
| "get_prop v k = Inr JUndefined"

definition field :: "jsval \<Rightarrow> string \<Rightarrow> jsval" where
  "field v k = (case get_prop v (lit k) of Inl _ \<Rightarrow> JUndefined | Inr x \<Rightarrow> x)"

section \<open>App.jsx: the analysis session\<close>

datatype tab = Chat | Results | Terminal | Files

datatype role = Assistant | User

text \<open>
  The contents of the chat messages the analysis path appends. Each constructor stands for
  one template literal of the source, applied to the values it interpolates:
  \<^item> \<open>Welcome\<close>: the initial greeting of \<open>useState\<close>;
  \<^item> \<open>SummaryNotice repo summary\<close>: "Done analyzing **repo**!" followed by the summary;
  \<^item> \<open>FallbackNotice total repo\<close>: "Analyzed **total files** from **repo**. Check Results tab.";
  \<^item> \<open>ErrorNotice message\<close>: the warning sign followed by \<open>event.message\<close>;
  \<^item> \<open>AnalysisFailed message\<close>: "Analysis failed: " followed by \<open>e.message\<close>.
\<close>

datatype content =
    Welcome
  | SummaryNotice jsstring jsval
  | FallbackNotice jsval jsstring
  | ErrorNotice jsval
  | AnalysisFailed jsstring

record message =
  role :: role
  content :: content

record file_result =
  path :: jsval
  analysis :: jsval

record progress =
  current :: jsval
  total :: jsval
  file' :: jsval

text \<open>The \<open>useState\<close> cells of \<open>App\<close>; \<open>analyzeProgress\<close> is \<open>null\<close> or an object.\<close>

record app_state =
  activeTab :: tab
  messages :: "message list"
  analysisResults :: "file_result list"
  summary :: jsval
  isAnalyzing :: bool
  analyzeProgress :: "progress option"

definition initial_app :: app_state where
  "initial_app = \<lparr> activeTab = Chat,
                   messages = [\<lparr> role = Assistant, content = Welcome \<rparr>],
                   analysisResults = [],
                   summary = JNull,
                   isAnalyzing = False,
                   analyzeProgress = None \<rparr>"

definition assistant :: "content \<Rightarrow> message" where
  "assistant c = \<lparr> role = Assistant, content = c \<rparr>"

text \<open>
  \<open>handleSSE(event, repo)\<close>. The setters act on the state cells. The name \<open>summary\<close>
  that the \<open>done\<close> case reads is not a cell: it is the constant bound by \<open>useState\<close> in the
  render of \<open>App\<close> that created this \<open>handleSSE\<close>, so it is a parameter here
  (\<open>summary_seen\<close>), fixed for all the calls one \<open>runAnalysis\<close> makes. \<open>switch\<close> compares
  with \<open>===\<close>; reading \<open>event.type\<close> throws on \<open>null\<close>, before any setter has run.
\<close>

definition handleSSE :: "jsval \<Rightarrow> jsval \<Rightarrow> jsstring \<Rightarrow> app_state \<Rightarrow> exn + app_state" where
  "handleSSE summary_seen event repo s =
     (case get_prop event (lit ''type'') of
        Inl e \<Rightarrow> Inl e
      | Inr ty \<Rightarrow> Inr (
          if ty = JStr (lit ''progress'') then
            s\<lparr> analyzeProgress := Some \<lparr> current = field event ''current'',
                                         total = field event ''total'',
                                         file' = field event ''file'' \<rparr> \<rparr>
          else if ty = JStr (lit ''file_result'') then
            s\<lparr> analysisResults := analysisResults s @
                  [\<lparr> path = field event ''file'', analysis = field event ''analysis'' \<rparr>] \<rparr>
          else if ty = JStr (lit ''summary'') then
            s\<lparr> summary := field event ''summary'',
               messages := messages s @
                  [assistant (SummaryNotice repo (field event ''summary''))],
               activeTab := Chat \<rparr>
          else if ty = JStr (lit ''done'') then
            (if falsy summary_seen then
               s\<lparr> messages := messages s @
                     [assistant (FallbackNotice (field event ''total_analyzed'') repo)],
                  activeTab := Chat \<rparr>
             else s)
          else if ty = JStr (lit ''error'') then
            s\<lparr> messages := messages s @ [assistant (ErrorNotice (field event ''message''))] \<rparr>
          else s))"

text \<open>
  The body of the \<open>try\<close> in the loop over the lines, once \<open>JSON.parse\<close> has returned
  \<open>event\<close>: the empty \<open>catch\<close> swallows what \<open>handleSSE\<close> throws.
\<close>

definition dispatch :: "jsval \<Rightarrow> jsstring \<Rightarrow> app_state \<Rightarrow> jsval \<Rightarrow> app_state" where
  "dispatch summary_seen repo s event =
     (case handleSSE summary_seen event repo s of Inl _ \<Rightarrow> s | Inr s' \<Rightarrow> s')"

text \<open>The four resets at the head of \<open>runAnalysis\<close>.\<close>

definition start_analysis :: "app_state \<Rightarrow> app_state" where
  "start_analysis s =
     s\<lparr> isAnalyzing := True,
        analysisResults := [],
        summary := JNull,
        analyzeProgress := Some \<lparr> current = JNum 0, total = JNum 0, file' = JStr [] \<rparr> \<rparr>"

text \<open>The frames of the wire format, as the objects \<open>JSON.parse\<close> returns for them.\<close>

definition progress_frame :: "int \<Rightarrow> int \<Rightarrow> jsstring \<Rightarrow> jsval" where
  "progress_frame c t f =
     JObj [(lit ''type'', JStr (lit ''progress'')), (lit ''current'', JNum c),
           (lit ''total'', JNum t), (lit ''file'', JStr f)]"

definition file_result_frame :: "jsstring \<Rightarrow> jsstring \<Rightarrow> jsval" where
  "file_result_frame f a =
     JObj [(lit ''type'', JStr (lit ''file_result'')), (lit ''file'', JStr f),
           (lit ''analysis'', JStr a)]"

definition summary_frame :: "jsstring \<Rightarrow> jsval" where
  "summary_frame t = JObj [(lit ''type'', JStr (lit ''summary'')), (lit ''summary'', JStr t)]"

definition done_frame :: "int \<Rightarrow> jsval" where
  "done_frame n = JObj [(lit ''type'', JStr (lit ''done'')), (lit ''total_analyzed'', JNum n)]"

definition error_frame :: "jsstring \<Rightarrow> jsval" where
  "error_frame m = JObj [(lit ''type'', JStr (lit ''error'')), (lit ''message'', JStr m)]"

section \<open>App.jsx: the decode loop of \<open>runAnalysis\<close>\<close>

subsection \<open>\<open>TextDecoder\<close>\<close>

text \<open>
  \<open>new TextDecoder()\<close> decodes UTF-8, replaces what is malformed by U+FFFD and drops a
  byte order mark at the head of the stream. It is the platform's, not the repository's; it
  is modelled here after the Encoding Standard: the UTF-8 decoder is a state machine over
  the bytes, and \<open>decode(value, {stream: true})\<close> keeps the machine's state between the
  calls and never flushes it. Bytes (below 256) and code points are natural numbers.
\<close>

type_synonym byte = nat

record utf8_decoder =
  code_point :: nat
  bytes_seen :: nat
  bytes_needed :: nat
  lower_boundary :: nat
  upper_boundary :: nat

definition utf8_start :: utf8_decoder where
  "utf8_start = \<lparr> code_point = 0, bytes_seen = 0, bytes_needed = 0,
                   lower_boundary = 0x80, upper_boundary = 0xBF \<rparr>"

text \<open>
  A byte read while no sequence is open. \<open>b mod 32\<close> is \<open>b & 0x1F\<close>, and so on. The
  result is the new state and the code points emitted (U+FFFD for an error).
\<close>

definition utf8_lead :: "utf8_decoder \<Rightarrow> byte \<Rightarrow> utf8_decoder \<times> nat list" where
  "utf8_lead d b =
     (if b \<le> 0x7F then (d, [b])
      else if 0xC2 \<le> b \<and> b \<le> 0xDF then
        (d\<lparr> bytes_needed := 1, code_point := b mod 32 \<rparr>, [])
      else if 0xE0 \<le> b \<and> b \<le> 0xEF then
        (d\<lparr> lower_boundary := (if b = 0xE0 then 0xA0 else lower_boundary d),
            upper_boundary := (if b = 0xED then 0x9F else upper_boundary d),
            bytes_needed := 2, code_point := b mod 16 \<rparr>, [])
      else if 0xF0 \<le> b \<and> b \<le> 0xF4 then
        (d\<lparr> lower_boundary := (if b = 0xF0 then 0x90 else lower_boundary d),
            upper_boundary := (if b = 0xF4 then 0x8F else upper_boundary d),
            bytes_needed := 3, code_point := b mod 8 \<rparr>, [])
      else (d, [0xFFFD]))"

text \<open>
  The decoder's handler for one byte. A byte outside the boundaries closes the open
  sequence with an error and is read again as a lead byte; \<open>c * 64 + b mod 64\<close> is
  \<open>(c << 6) | (b & 0x3F)\<close>.
\<close>

definition utf8_handler :: "utf8_decoder \<Rightarrow> byte \<Rightarrow> utf8_decoder \<times> nat list" where
  "utf8_handler d b =
     (if bytes_needed d = 0 then utf8_lead d b
      else if b < lower_boundary d \<or> upper_boundary d < b then
        (case utf8_lead utf8_start b of (d', out) \<Rightarrow> (d', 0xFFFD # out))
      else
        (let c = code_point d * 64 + b mod 64;
             seen = bytes_seen d + 1
         in if seen \<noteq> bytes_needed d then
              (d\<lparr> lower_boundary := 0x80, upper_boundary := 0xBF,
                  code_point := c, bytes_seen := seen \<rparr>, [])
            else (utf8_start, [c])))"

fun run_decoder :: "utf8_decoder \<Rightarrow> byte list \<Rightarrow> utf8_decoder \<times> nat list" where
  "run_decoder d [] = (d, [])"
| "run_decoder d (b # bs) =
     (case utf8_handler d b of (d1, out1) \<Rightarrow>
        (case run_decoder d1 bs of (d2, out2) \<Rightarrow> (d2, out1 @ out2)))"

text \<open>The code units of one code point in a JavaScript string.\<close>

definition utf16 :: "nat \<Rightarrow> jsstring" where
  "utf16 cp =
     (if cp < 0x10000 then [cp]
      else [0xD800 + (cp - 0x10000) div 0x400, 0xDC00 + (cp - 0x10000) mod 0x400])"

definition utf16s :: "nat list \<Rightarrow> jsstring" where
  "utf16s cps = concat (map utf16 cps)"

text \<open>
  The decoder's output becomes a string; the first code point the decoder ever emits is
  dropped if it is the byte order mark. The flag says whether a code point was seen before.
\<close>

fun serialize :: "bool \<Rightarrow> nat list \<Rightarrow> bool \<times> jsstring" where
  "serialize bom_seen [] = (bom_seen, [])"
| "serialize bom_seen (cp # cps) =
     (True, if \<not> bom_seen \<and> cp = 0xFEFF then utf16s cps else utf16s (cp # cps))"

record text_decoder =
  decoder :: utf8_decoder
  bom_seen :: bool

definition new_TextDecoder :: text_decoder where
  "new_TextDecoder = \<lparr> decoder = utf8_start, bom_seen = False \<rparr>"

text \<open>\<open>decoder.decode(value, { stream: true })\<close>: the new decoder state and the string.\<close>

definition decode :: "text_decoder \<Rightarrow> byte list \<Rightarrow> text_decoder \<times> jsstring" where
  "decode td chunk =
     (case run_decoder (decoder td) chunk of (d, cps) \<Rightarrow>
        (case serialize (bom_seen td) cps of (seen, out) \<Rightarrow>
           (\<lparr> decoder = d, bom_seen = seen \<rparr>, out)))"

subsection \<open>Lines\<close>

text \<open>\<open>buffer.split("\n")\<close>: the pieces between the line feeds, never an empty array.\<close>

fun split_nl :: "jsstring \<Rightarrow> jsstring list" where
  "split_nl [] = [[]]"
| "split_nl (c # cs) =
     (if c = 10 then [] # split_nl cs
      else (case split_nl cs of [] \<Rightarrow> [[c]] | l # ls \<Rightarrow> (c # l) # ls))"

definition startsWith :: "jsstring \<Rightarrow> jsstring \<Rightarrow> bool" where
  "startsWith s p = (take (length p) s = p)"

text \<open>
  The body of the \<open>for\<close> loop. \<open>JSON.parse\<close> is the platform's and is a parameter:
  \<open>parse\<close> gives \<open>None\<close> where \<open>JSON.parse\<close> throws. The handler stands for the call
  \<open>handleSSE(event, repo)\<close>; the empty \<open>catch\<close> swallows what either of them throws.
\<close>

definition process_line ::
  "(jsstring \<Rightarrow> jsval option) \<Rightarrow> (jsval \<Rightarrow> 'st \<Rightarrow> exn + 'st) \<Rightarrow> 'st \<Rightarrow> jsstring \<Rightarrow> 'st" where
  "process_line parse handler s line =
     (if \<not> startsWith line (lit ''data: '') then s
      else (case parse (drop 6 line) of
              None \<Rightarrow> s
            | Some event \<Rightarrow> (case handler event s of Inl _ \<Rightarrow> s | Inr s' \<Rightarrow> s')))"

text \<open>
  The \<open>while (true)\<close> loop over the chunks \<open>reader.read()\<close> returns, up to the one with
  \<open>done\<close> set: \<open>lines.pop()\<close> takes the last piece off and makes it the buffer. When the
  stream is done the loop breaks, and the buffer is not looked at again.
\<close>

fun read_loop ::
  "(jsstring \<Rightarrow> jsval option) \<Rightarrow> (jsval \<Rightarrow> 'st \<Rightarrow> exn + 'st) \<Rightarrow>
   text_decoder \<Rightarrow> jsstring \<Rightarrow> byte list list \<Rightarrow> 'st \<Rightarrow> 'st" where
  "read_loop parse handler td buffer [] s = s"
| "read_loop parse handler td buffer (chunk # chunks) s =
     (case decode td chunk of (td', text) \<Rightarrow>
        (let lines = split_nl (buffer @ text);
             buffer' = last lines;
             s' = foldl (process_line parse handler) s (butlast lines)
         in read_loop parse handler td' buffer' chunks s'))"

text \<open>
  What \<open>fetch\<close> and the reader give to one call of \<open>runAnalysis\<close>: \<open>fetch\<close> throws, or
  the body delivers its chunks and then either ends or fails.
\<close>

datatype stream_end = StreamDone | StreamError jsstring

datatype response = FetchError jsstring | Body "byte list list" stream_end

text \<open>
  \<open>runAnalysis(repo)\<close>, called in state \<open>s\<close>. Its \<open>handleSSE\<close> is the one of the render
  that state \<open>s\<close> produced, so the \<open>summary\<close> it reads is \<open>summary s\<close>, whatever
  \<open>setSummary\<close> does later. A stream that never ends is not a value of \<open>response\<close>.
\<close>

definition runAnalysis ::
  "(jsstring \<Rightarrow> jsval option) \<Rightarrow> jsstring \<Rightarrow> response \<Rightarrow> app_state \<Rightarrow> app_state" where
  "runAnalysis parse repo resp s =
     (let s1 = start_analysis s;
          failed = (\<lambda>m st. st\<lparr> messages := messages st @ [assistant (AnalysisFailed m)] \<rparr>);
          s2 = (case resp of
                  FetchError m \<Rightarrow> failed m s1
                | Body chunks e \<Rightarrow>
                    (let s' = read_loop parse (\<lambda>event. handleSSE (summary s) event repo)
                                new_TextDecoder [] chunks s1
                     in case e of StreamDone \<Rightarrow> s' | StreamError m \<Rightarrow> failed m s'))
      in s2\<lparr> isAnalyzing := False, analyzeProgress := None \<rparr>)"

section \<open>TerminalPanel.jsx\<close>

subsection \<open>String methods\<close>

text \<open>The code units \<open>trim\<close> removes: the white space and line terminators of ECMAScript.\<close>

definition is_space :: "nat \<Rightarrow> bool" where
  "is_space c \<longleftrightarrow>
     c \<in> {0x9, 0xA, 0xB, 0xC, 0xD, 0x20, 0xA0, 0x1680, 0x2028, 0x2029, 0x202F, 0x205F,
           0x3000, 0xFEFF} \<or> (0x2000 \<le> c \<and> c \<le> 0x200A)"

definition trimEnd :: "jsstring \<Rightarrow> jsstring" where
  "trimEnd s = rev (dropWhile is_space (rev s))"

definition trim :: "jsstring \<Rightarrow> jsstring" where
  "trim s = trimEnd (dropWhile is_space s)"

text \<open>The word characters of a regular expression without flags: \<open>[A-Za-z0-9_]\<close>.\<close>

definition is_word_char :: "nat \<Rightarrow> bool" where
  "is_word_char c \<longleftrightarrow>
     (0x41 \<le> c \<and> c \<le> 0x5A) \<or> (0x61 \<le> c \<and> c \<le> 0x7A) \<or> (0x30 \<le> c \<and> c \<le> 0x39) \<or> c = 0x5F"

definition raw_verbs :: "string list" where
  "raw_verbs = [''ls'', ''cd'', ''git'', ''cat'', ''pwd'', ''mkdir'', ''pip'', ''npm'', ''python'',
                ''node'', ''echo'', ''grep'', ''find'', ''rm'', ''cp'', ''mv'']"

text \<open>
  \<open>/^(ls|cd|...|mv)\b/.test(text)\<close>: one of the verbs at the head of the text, followed
  by a word boundary, which after a verb is the end of the text or a character that is not a
  word character.
\<close>

definition looksRaw :: "jsstring \<Rightarrow> bool" where
  "looksRaw text =
     list_ex (\<lambda>verb. startsWith text (lit verb) \<and>
                (case drop (length verb) text of [] \<Rightarrow> True | c # _ \<Rightarrow> \<not> is_word_char c))
             raw_verbs"

text \<open>
  An optional text field of a response. \<open>truthy\<close> gives the text where JavaScript takes the
  field for true (it is there and not empty); \<open>shown\<close> is the field inside a template literal.
\<close>

fun truthy :: "jsstring option \<Rightarrow> jsstring option" where
  "truthy None = None"
| "truthy (Some []) = None"
| "truthy (Some (c # cs)) = Some (c # cs)"

fun shown :: "jsstring option \<Rightarrow> jsstring" where
  "shown None = lit ''undefined''"
| "shown (Some t) = t"

subsection \<open>State\<close>

datatype line_type = Info | Cmd | Out | Err | AiPrompt | AiSuggest

datatype mode = Ai | Raw

text \<open>
  The body of a POST: \<open>RunRequest command cwd\<close> goes to \<open>/terminal/run\<close>,
  \<open>AiRequest prompt cwd\<close> to \<open>/terminal/ai\<close> (always with \<open>dry_run: true\<close>).
\<close>

datatype request = RunRequest jsstring jsstring | AiRequest jsstring jsstring

text \<open>The object a response's \<open>json()\<close> gives, with the fields the panel reads.\<close>

record reply =
  stdout :: "jsstring option"
  stderr :: "jsstring option"
  error :: "jsstring option"
  command :: "jsstring option"

text \<open>What an \<open>await\<close> of \<open>fetch\<close> and \<open>json()\<close> ends with: an exception's message, or the object.\<close>

datatype answer = Threw jsstring | Json reply

text \<open>
  An asynchronous function suspended at an \<open>await\<close>, with the variables of its closure it
  still reads: \<open>runCommand\<close> at its first \<open>fetch\<close> (with \<open>cmd\<close> and the \<open>cwd\<close> of
  the render that called it), \<open>runCommand\<close> at the \<open>fetch\<close> that resolves the directory,
  \<open>askAI\<close> at its \<open>fetch\<close>.
\<close>

datatype suspended = AwaitRun jsstring jsstring | AwaitResolve | AwaitSuggestion

text \<open>
  The \<open>useState\<close> cells of the panel, and two components that are not cells: the calls
  suspended at an \<open>await\<close>, and the log of the requests sent to the backend so far.
\<close>

record terminal =
  history :: "(line_type \<times> jsstring) list"
  input :: jsstring
  cwd :: jsstring
  mode :: mode
  pending :: "jsstring option"
  loading :: bool
  awaiting :: "suspended list"
  requests :: "request list"

definition initial_terminal :: terminal where
  "initial_terminal =
     \<lparr> history = [(Info, lit ''RepoAI Terminal '' @ [0x2014] @
                          lit '' connected to your Codespace'' @ [10] @
                          lit ''Type a command or describe what you want in plain English.'' @ [10])],
       input = [],
       cwd = lit ''/workspaces'',
       mode = Ai,
       pending = None,
       loading = False,
       awaiting = [],
       requests = [] \<rparr>"

definition addLine :: "line_type \<Rightarrow> jsstring \<Rightarrow> terminal \<Rightarrow> terminal" where
  "addLine t text s = s\<lparr> history := history s @ [(t, text)] \<rparr>"

subsection \<open>The asynchronous functions\<close>

text \<open>\<open>runCommand(cmd)\<close> up to its first \<open>await\<close>.\<close>

definition runCommand :: "jsstring \<Rightarrow> terminal \<Rightarrow> terminal" where
  "runCommand cmd s =
     (addLine Cmd (lit ''$ '' @ cmd) s)
       \<lparr> loading := True,
         requests := requests s @ [RunRequest cmd (cwd s)],
         awaiting := awaiting s @ [AwaitRun cmd (cwd s)] \<rparr>"

text \<open>The \<open>catch\<close> and \<open>finally\<close> blocks the three functions share.\<close>

definition network_error :: "jsstring \<Rightarrow> terminal \<Rightarrow> terminal" where
  "network_error m s = (addLine Err (lit ''Network error: '' @ m) s)\<lparr> loading := False \<rparr>"

text \<open>
  \<open>runCommand\<close> from the answer to its first request on: to its end, or to the second
  \<open>await\<close> when \<open>cmd\<close> starts with \<open>cd\<close> and a space.
\<close>

definition runCommand_answered :: "jsstring \<Rightarrow> jsstring \<Rightarrow> answer \<Rightarrow> terminal \<Rightarrow> terminal" where
  "runCommand_answered cmd cwd0 a s =
     (case a of
        Threw m \<Rightarrow> network_error m s
      | Json data \<Rightarrow>
          (case truthy (error data) of
             Some e \<Rightarrow> (addLine Err e s)\<lparr> loading := False \<rparr>
           | None \<Rightarrow>
               (let s1 = (case truthy (stdout data) of
                            Some t \<Rightarrow> addLine Out (trimEnd t) s | None \<Rightarrow> s);
                    s2 = (case truthy (stderr data) of
                            Some t \<Rightarrow> addLine Err (trimEnd t) s1 | None \<Rightarrow> s1)
                in if startsWith cmd (lit ''cd '') then
                     (let newDir = trim (drop 3 cmd)
                      in s2\<lparr> requests := requests s2 @
                                [RunRequest (lit ''pwd'')
                                   (if startsWith newDir (lit ''/'') then newDir
                                    else cwd0 @ lit ''/'' @ newDir)],
                             awaiting := awaiting s2 @ [AwaitResolve] \<rparr>)
                   else s2\<lparr> loading := False \<rparr>)))"

text \<open>\<open>runCommand\<close> from the answer to the resolving request on.\<close>

definition runCommand_resolved :: "answer \<Rightarrow> terminal \<Rightarrow> terminal" where
  "runCommand_resolved a s =
     (case a of
        Threw m \<Rightarrow> network_error m s
      | Json resolveData \<Rightarrow>
          (case truthy (stdout resolveData) of
             Some t \<Rightarrow> s\<lparr> cwd := trim t, loading := False \<rparr>
           | None \<Rightarrow> s\<lparr> loading := False \<rparr>))"

text \<open>\<open>askAI(prompt)\<close> up to its \<open>await\<close>; the robot face is U+1F916.\<close>

definition askAI :: "jsstring \<Rightarrow> terminal \<Rightarrow> terminal" where
  "askAI prompt s =
     (addLine AiPrompt ([0xD83E, 0xDD16] @ lit '' '' @ prompt) s)
       \<lparr> loading := True,
         requests := requests s @ [AiRequest prompt (cwd s)],
         awaiting := awaiting s @ [AwaitSuggestion] \<rparr>"

definition askAI_answered :: "answer \<Rightarrow> terminal \<Rightarrow> terminal" where
  "askAI_answered a s =
     (case a of
        Threw m \<Rightarrow> network_error m s
      | Json data \<Rightarrow>
          (case truthy (error data) of
             Some e \<Rightarrow> (addLine Err e s)\<lparr> loading := False \<rparr>
           | None \<Rightarrow>
               (addLine AiSuggest (lit ''Suggested: '' @ shown (command data))
                  (s\<lparr> pending := command data \<rparr>))\<lparr> loading := False \<rparr>))"

text \<open>
  \<open>approvePending\<close>; \<open>cmd\<close> is the \<open>pending\<close> of the render whose button was clicked.
\<close>

definition approvePending :: "jsstring \<Rightarrow> terminal \<Rightarrow> terminal" where
  "approvePending cmd s = runCommand cmd (s\<lparr> pending := None \<rparr>)"

definition handleSubmit :: "terminal \<Rightarrow> terminal" where
  "handleSubmit s =
     (let text = trim (input s)
      in if text = [] \<or> loading s then s
         else
           (let s1 = s\<lparr> input := [], pending := None \<rparr>
            in if mode s = Raw then runCommand text s1
               else if looksRaw text then runCommand text s1
               else askAI text s1))"

subsection \<open>The panel as a state machine\<close>

definition QUICK_CMDS :: "string list" where
  "QUICK_CMDS = [''ls -la'', ''pwd'', ''git status'', ''git log --oneline -10'',
                 ''cat package.json'', ''pip list'', ''python --version'', ''node --version'']"

text \<open>
  What can happen to the panel: the user types into the input, picks a mode, clicks a quick
  command, submits (Enter or the Run button), clicks the Run or the Cancel button of a
  suggestion, or the \<open>i\<close>-th suspended call gets its answer.
\<close>

datatype event =
    Typed jsstring
  | SetMode mode
  | QuickCmd string
  | Submit
  | Approve
  | Cancel
  | Answer nat answer

definition resume :: "suspended \<Rightarrow> answer \<Rightarrow> terminal \<Rightarrow> terminal" where
  "resume k a s =
     (case k of
        AwaitRun cmd cwd0 \<Rightarrow> runCommand_answered cmd cwd0 a s
      | AwaitResolve \<Rightarrow> runCommand_resolved a s
      | AwaitSuggestion \<Rightarrow> askAI_answered a s)"

text \<open>
  The input is disabled while \<open>loading\<close>. The two buttons of a suggestion are rendered
  only while \<open>pending\<close> is truthy (\<open>{pending && ...}\<close>), so a click on them happens
  only then.
\<close>

fun step :: "terminal \<Rightarrow> event \<Rightarrow> terminal" where
  "step s (Typed t) = (if loading s then s else s\<lparr> input := t \<rparr>)"
| "step s (SetMode m) = s\<lparr> mode := m \<rparr>"
| "step s (QuickCmd q) = (if q \<in> set QUICK_CMDS then s\<lparr> mode := Raw, input := lit q \<rparr> else s)"
| "step s Submit = handleSubmit s"
| "step s Approve = (case truthy (pending s) of None \<Rightarrow> s | Some cmd \<Rightarrow> approvePending cmd s)"
| "step s Cancel = (case truthy (pending s) of None \<Rightarrow> s | Some _ \<Rightarrow> s\<lparr> pending := None \<rparr>)"
| "step s (Answer i a) =
     (if i < length (awaiting s)
      then resume (awaiting s ! i) a (s\<lparr> awaiting := take i (awaiting s) @ drop (Suc i) (awaiting s) \<rparr>)
      else s)"

definition run :: "terminal \<Rightarrow> event list \<Rightarrow> terminal" where
  "run s evs = foldl step s evs"

text \<open>An answer that suggests a command, and one that reports output.\<close>

definition suggestion :: "jsstring \<Rightarrow> answer" where
  "suggestion c = Json \<lparr> stdout = None, stderr = None, error = None, command = Some c \<rparr>"

definition printed :: "jsstring \<Rightarrow> answer" where
  "printed t = Json \<lparr> stdout = Some t, stderr = None, error = None, command = None \<rparr>"

section \<open>Notions the properties are stated with\<close>

text \<open>A frame has type \<open>t\<close> when its \<open>type\<close> property is the string \<open>t\<close>.\<close>

definition has_type :: "jsval \<Rightarrow> string \<Rightarrow> bool" where
  "has_type e t \<longleftrightarrow> get_prop e (lit ''type'') = Inr (JStr (lit t))"

definition known_types :: "string list" where
  "known_types = [''progress'', ''file_result'', ''summary'', ''done'', ''error'']"

text \<open>
  A line after the marker whose payload does not parse, or parses to a value that has none
  of the known types (\<open>null\<close> and values without a \<open>type\<close> among them).
\<close>

definition dropped :: "(jsstring \<Rightarrow> jsval option) \<Rightarrow> jsstring \<Rightarrow> bool" where
  "dropped parse line =
     (case parse (drop 6 line) of
        None \<Rightarrow> True
      | Some event \<Rightarrow> list_all (\<lambda>t. \<not> has_type event t) known_types)"

text \<open>Handing one event to the handler inside the \<open>try\<close>.\<close>

definition deliver :: "(jsval \<Rightarrow> 'st \<Rightarrow> exn + 'st) \<Rightarrow> 'st \<Rightarrow> jsval \<Rightarrow> 'st" where
  "deliver handler s event = (case handler event s of Inl _ \<Rightarrow> s | Inr s' \<Rightarrow> s')"

text \<open>
  What the server puts on the wire: text as a list of Unicode scalar values, encoded in
  UTF-8 (after the Encoding Standard), one frame being the marker, a payload and a line feed.
\<close>

definition scalar :: "nat \<Rightarrow> bool" where
  "scalar cp \<longleftrightarrow> cp < 0xD800 \<or> (0xE000 \<le> cp \<and> cp < 0x110000)"

definition utf8 :: "nat \<Rightarrow> byte list" where
  "utf8 cp =
     (if cp < 0x80 then [cp]
      else if cp < 0x800 then [0xC0 + cp div 0x40, 0x80 + cp mod 0x40]
      else if cp < 0x10000 then
        [0xE0 + cp div 0x1000, 0x80 + cp div 0x40 mod 0x40, 0x80 + cp mod 0x40]
      else [0xF0 + cp div 0x40000, 0x80 + cp div 0x1000 mod 0x40,
            0x80 + cp div 0x40 mod 0x40, 0x80 + cp mod 0x40])"

definition utf8s :: "nat list \<Rightarrow> byte list" where
  "utf8s cps = concat (map utf8 cps)"

definition frame_line :: "nat list \<Rightarrow> nat list" where
  "frame_line payload = lit ''data: '' @ payload @ [10]"

text \<open>The text without a byte order mark at its head, and a decoder state spelt out.\<close>

fun strip_bom :: "nat list \<Rightarrow> nat list" where
  "strip_bom [] = []"
| "strip_bom (cp # rest) = (if cp = 0xFEFF then rest else cp # rest)"

definition open_seq :: "nat \<Rightarrow> nat \<Rightarrow> nat \<Rightarrow> nat \<Rightarrow> nat \<Rightarrow> utf8_decoder" where
  "open_seq c seen needed lo hi =
     \<lparr> code_point = c, bytes_seen = seen, bytes_needed = needed,
       lower_boundary = lo, upper_boundary = hi \<rparr>"

text \<open>
  \<open>JSON.parse\<close> on the two payloads of the example stream below: the objects it returns
  for them. Nothing else is asked of it there.
\<close>

definition sample_parse :: "jsstring \<Rightarrow> jsval option" where
  \<open>sample_parse payload =
     (if payload = lit ''{"type":"summary","summary":"ok"}'' then Some (summary_frame (lit ''ok''))
      else if payload = lit ''{"type":"done","total_analyzed":2}'' then Some (done_frame 2)
      else None)\<close>

text \<open>
  At most one call is suspended, and while one is, \<open>loading\<close> is set and no
  suggestion is pending.
\<close>

definition at_most_one :: "terminal \<Rightarrow> bool" where
  "at_most_one s \<longleftrightarrow>
     (awaiting s = [] \<and> \<not> loading s) \<or>
     (length (awaiting s) = 1 \<and> loading s \<and> truthy (pending s) = None)"

text \<open>
  A command recognised as a change of directory whose execution came back without an error.
\<close>

definition executed_cd :: "jsstring \<Rightarrow> answer \<Rightarrow> bool" where
  "executed_cd cmd a \<longleftrightarrow>
     startsWith cmd (lit ''cd '') \<and>
     (case a of Threw _ \<Rightarrow> False | Json data \<Rightarrow> truthy (error data) = None)"

section \<open>The decoder and the decode loop\<close>

lemma run_decoder_append:
  "run_decoder d (a @ b) =
     (case run_decoder d a of (d1, o1) \<Rightarrow>
        (case run_decoder d1 b of (d2, o2) \<Rightarrow> (d2, o1 @ o2)))"
  by (induction a arbitrary: d) (simp_all split: prod.splits)

lemma serialize_seen: "serialize True cps = (True, utf16s cps)"
  by (cases cps) (simp_all add: utf16s_def)

lemma utf16s_append: "utf16s (a @ b) = utf16s a @ utf16s b"
  by (simp add: utf16s_def)

lemma serialize_append:
  "serialize f (a @ b) =
     (case serialize f a of (f1, t1) \<Rightarrow>
        (case serialize f1 b of (f2, t2) \<Rightarrow> (f2, t1 @ t2)))"
proof (cases a)
  case Nil
  then show ?thesis by (simp split: prod.splits)
next
  case (Cons cp cps)
  then show ?thesis
    using utf16s_append [of "[cp]" "cps @ b"] utf16s_append [of "[cp]" cps]
    by (simp add: serialize_seen utf16s_append)
qed

lemma decode_append:
  "decode td (a @ b) =
     (case decode td a of (td1, t1) \<Rightarrow>
        (case decode td1 b of (td2, t2) \<Rightarrow> (td2, t1 @ t2)))"
  by (simp add: decode_def run_decoder_append serialize_append split: prod.splits)

lemma split_nl_nonempty: "split_nl s \<noteq> []"
  by (induction s) (simp_all split: list.splits)

lemma split_nl_plain: "10 \<notin> set s \<Longrightarrow> split_nl s = [s]"
  by (induction s) simp_all

lemma split_nl_line: "10 \<notin> set l \<Longrightarrow> split_nl (l @ 10 # rest) = l # split_nl rest"
  by (induction l) simp_all

lemma split_nl_lines:
  "\<forall>l \<in> set ls. 10 \<notin> set l \<Longrightarrow> 10 \<notin> set f \<Longrightarrow>
   split_nl (concat (map (\<lambda>l. l @ [10]) ls) @ f) = ls @ [f]"
  by (induction ls) (simp_all add: split_nl_plain split_nl_line)

lemma last_split_nl_plain: "10 \<notin> set (last (split_nl s))"
  by (induction s) (auto simp: split_nl_nonempty split: list.splits)

lemma split_nl_append:
  "split_nl (x @ y) = butlast (split_nl x) @ split_nl (last (split_nl x) @ y)"
proof (induction x)
  case Nil
  show ?case by simp
next
  case (Cons c cs)
  show ?case
  proof (cases "c = 10")
    case True
    then show ?thesis using Cons split_nl_nonempty [of cs] by simp
  next
    case False
    obtain l ls where s: "split_nl cs = l # ls"
      using split_nl_nonempty [of cs] by (cases "split_nl cs") auto
    show ?thesis
    proof (cases ls)
      case Nil
      then show ?thesis using False Cons s by simp
    next
      case (Cons l' ls')
      then show ?thesis using False Cons.IH s split_nl_nonempty [of "last ls @ y"]
        by (simp split: list.splits)
    qed
  qed
qed

lemma read_loop_text:
  "10 \<notin> set buffer \<Longrightarrow>
   read_loop parse handler td buffer chunks s =
   foldl (process_line parse handler) s
     (butlast (split_nl (buffer @ snd (decode td (concat chunks)))))"
proof (induction chunks arbitrary: td buffer s)
  case Nil
  then show ?case
    by (simp add: decode_def split_nl_plain)
next
  case (Cons chunk chunks)
  obtain td' tx1 where d: "decode td chunk = (td', tx1)"
    by (cases "decode td chunk")
  obtain td'' tx2 where d': "decode td' (concat chunks) = (td'', tx2)"
    by (cases "decode td' (concat chunks)")
  have all: "snd (decode td (chunk @ concat chunks)) = tx1 @ tx2"
    by (simp add: decode_append d d')
  let ?lines = "split_nl (buffer @ tx1)"
  have "read_loop parse handler td buffer (chunk # chunks) s =
        read_loop parse handler td' (last ?lines) chunks
          (foldl (process_line parse handler) s (butlast ?lines))"
    by (simp add: d Let_def)
  also have "\<dots> = foldl (process_line parse handler)
                     (foldl (process_line parse handler) s (butlast ?lines))
                     (butlast (split_nl (last ?lines @ tx2)))"
    using Cons.IH [of "last ?lines" td'] by (simp add: last_split_nl_plain d')
  also have "\<dots> = foldl (process_line parse handler) s
                     (butlast (split_nl ((buffer @ tx1) @ tx2)))"
    by (simp add: split_nl_append [of "buffer @ tx1" tx2] butlast_append split_nl_nonempty
          del: append_assoc)
  finally show ?case by (simp add: all)
qed

lemma mod_offset: "r < m \<Longrightarrow> (k * m + r) mod m = (r::nat)"
  by simp

lemma lead_ascii: "b < 0x80 \<Longrightarrow> utf8_handler utf8_start b = (utf8_start, [b])"
  by (simp add: utf8_handler_def utf8_lead_def utf8_start_def)

lemma lead_two:
  assumes "2 \<le> q" "q < 32"
  shows "utf8_handler utf8_start (0xC0 + q) = (open_seq q 0 1 0x80 0xBF, [])"
proof -
  have "(192 + q) mod 32 = q" using mod_offset [of q 32 6] assms by simp
  with assms show ?thesis
    by (simp add: utf8_handler_def utf8_lead_def utf8_start_def open_seq_def)
qed

lemma lead_three:
  assumes "a < 16"
  shows "utf8_handler utf8_start (0xE0 + a) =
     (open_seq a 0 2 (if a = 0 then 0xA0 else 0x80) (if a = 13 then 0x9F else 0xBF), [])"
proof -
  have "(224 + a) mod 16 = a" using mod_offset [of a 16 14] assms by simp
  with assms show ?thesis
    by (simp add: utf8_handler_def utf8_lead_def utf8_start_def open_seq_def)
qed

lemma lead_four:
  assumes "a < 5"
  shows "utf8_handler utf8_start (0xF0 + a) =
     (open_seq a 0 3 (if a = 0 then 0x90 else 0x80) (if a = 4 then 0x8F else 0xBF), [])"
proof -
  have "(240 + a) mod 8 = a" using mod_offset [of a 8 30] assms by simp
  with assms show ?thesis
    by (simp add: utf8_handler_def utf8_lead_def utf8_start_def open_seq_def)
qed

lemma continue_seq:
  assumes "r < 64" "lo \<le> 0x80 + r" "0x80 + r \<le> hi" "needed \<noteq> 0"
  shows "utf8_handler (open_seq c seen needed lo hi) (0x80 + r) =
     (if seen + 1 = needed then (utf8_start, [c * 64 + r])
      else (open_seq (c * 64 + r) (seen + 1) needed 0x80 0xBF, []))"
proof -
  have "(128 + r) mod 64 = r" using mod_offset [of r 64 2] assms by simp
  with assms show ?thesis
    by (simp add: utf8_handler_def open_seq_def Let_def)
qed


lemma utf8_1: "cp < 0x80 \<Longrightarrow> run_decoder utf8_start (utf8 cp) = (utf8_start, [cp])"
  by (simp add: utf8_def lead_ascii)

lemma utf8_2:
  assumes "0x80 \<le> cp" "cp < 0x800"
  shows "run_decoder utf8_start (utf8 cp) = (utf8_start, [cp])"
proof -
  define q r where "q = cp div 64" and "r = cp mod 64"
  have cp: "q * 64 + r = cp" and r: "r < 64" by (simp_all add: q_def r_def)
  have q: "2 \<le> q" "q < 32" using assms by (simp_all add: q_def)
  have enc: "utf8 cp = [0xC0 + q, 0x80 + r]"
    using assms by (simp add: utf8_def q_def r_def)
  have s2: "utf8_handler (open_seq q 0 1 0x80 0xBF) (0x80 + r) = (utf8_start, [q * 64 + r])"
    using continue_seq [of r "0x80" "0xBF" 1 q 0] r by (simp add: open_seq_def)
  have "run_decoder utf8_start [0xC0 + q, 0x80 + r] = (utf8_start, [q * 64 + r])"
    by (simp only: run_decoder.simps lead_two [OF q] s2 prod.case append.simps)
  then show ?thesis by (simp only: enc cp)
qed

lemma utf8_3:
  assumes "0x800 \<le> cp" "cp < 0x10000" "scalar cp"
  shows "run_decoder utf8_start (utf8 cp) = (utf8_start, [cp])"
proof -
  define a b c where "a = cp div 4096" and "b = cp div 64 mod 64" and "c = cp mod 64"
  define lo hi :: nat where "lo = (if a = 0 then 0xA0 else 0x80)"
    and "hi = (if a = 13 then 0x9F else 0xBF)"
  have "cp div 4096 = cp div 64 div 64" by (simp add: div_mult2_eq [symmetric])
  then have "a * 64 + b = cp div 64" by (simp add: a_def b_def)
  then have cp: "(a * 64 + b) * 64 + c = cp" by (simp add: c_def)
  have b: "b < 64" and c: "c < 64" by (simp_all add: b_def c_def)
  have a: "a < 16" using assms(2) by (simp add: a_def)
  have "a = 0 \<Longrightarrow> 32 \<le> b" using assms(1) c unfolding cp [symmetric] by simp
  moreover have "a = 13 \<Longrightarrow> b < 32"
    using assms(2,3) b c unfolding cp [symmetric] scalar_def by auto
  ultimately have range: "lo \<le> 0x80 + b" "0x80 + b \<le> hi"
    using b by (auto simp: lo_def hi_def)
  have enc: "utf8 cp = [0xE0 + a, 0x80 + b, 0x80 + c]"
    using assms by (simp add: utf8_def a_def b_def c_def)
  have s1: "utf8_handler utf8_start (0xE0 + a) = (open_seq a 0 2 lo hi, [])"
    using a by (simp add: lead_three lo_def hi_def)
  have s2: "utf8_handler (open_seq a 0 2 lo hi) (0x80 + b) =
              (open_seq (a * 64 + b) 1 2 0x80 0xBF, [])"
    using continue_seq [of b lo hi 2 a 0] b range by (simp add: open_seq_def)
  have s3: "utf8_handler (open_seq (a * 64 + b) 1 2 0x80 0xBF) (0x80 + c) =
              (utf8_start, [(a * 64 + b) * 64 + c])"
    using continue_seq [of c "0x80" "0xBF" 2 "a * 64 + b" 1] c by (simp add: open_seq_def)
  have "run_decoder utf8_start [0xE0 + a, 0x80 + b, 0x80 + c] =
          (utf8_start, [(a * 64 + b) * 64 + c])"
    by (simp only: run_decoder.simps s1 s2 s3 prod.case append.simps)
  then show ?thesis by (simp only: enc cp)
qed

lemma utf8_4:
  assumes "0x10000 \<le> cp" "cp < 0x110000"
  shows "run_decoder utf8_start (utf8 cp) = (utf8_start, [cp])"
proof -
  define a b c e where "a = cp div 262144" and "b = cp div 4096 mod 64"
    and "c = cp div 64 mod 64" and "e = cp mod 64"
  define lo hi :: nat where "lo = (if a = 0 then 0x90 else 0x80)"
    and "hi = (if a = 4 then 0x8F else 0xBF)"
  have "cp div 262144 = cp div 4096 div 64" by (simp add: div_mult2_eq [symmetric])
  then have 1: "a * 64 + b = cp div 4096" by (simp add: a_def b_def)
  have "cp div 4096 = cp div 64 div 64" by (simp add: div_mult2_eq [symmetric])
  then have 2: "cp div 4096 * 64 + c = cp div 64" by (simp add: c_def)
  have cp: "((a * 64 + b) * 64 + c) * 64 + e = cp" by (simp add: 1 2 e_def)
  have b: "b < 64" and c: "c < 64" and e: "e < 64" by (simp_all add: b_def c_def e_def)
  have a: "a < 5" using assms(2) by (simp add: a_def)
  have "a = 0 \<Longrightarrow> 16 \<le> b" using assms(1) c e unfolding cp [symmetric] by simp
  moreover have "a = 4 \<Longrightarrow> b < 16" using assms(2) unfolding cp [symmetric] by simp
  ultimately have range: "lo \<le> 0x80 + b" "0x80 + b \<le> hi"
    using b by (auto simp: lo_def hi_def)
  have enc: "utf8 cp = [0xF0 + a, 0x80 + b, 0x80 + c, 0x80 + e]"
    using assms by (simp add: utf8_def a_def b_def c_def e_def)
  have s1: "utf8_handler utf8_start (0xF0 + a) = (open_seq a 0 3 lo hi, [])"
    using a by (simp add: lead_four lo_def hi_def)
  have s2: "utf8_handler (open_seq a 0 3 lo hi) (0x80 + b) =
              (open_seq (a * 64 + b) 1 3 0x80 0xBF, [])"
    using continue_seq [of b lo hi 3 a 0] b range by (simp add: open_seq_def)
  have s3: "utf8_handler (open_seq (a * 64 + b) 1 3 0x80 0xBF) (0x80 + c) =
              (open_seq ((a * 64 + b) * 64 + c) 2 3 0x80 0xBF, [])"
    using continue_seq [of c "0x80" "0xBF" 3 "a * 64 + b" 1] c by (simp add: open_seq_def)
  have s4: "utf8_handler (open_seq ((a * 64 + b) * 64 + c) 2 3 0x80 0xBF) (0x80 + e) =
              (utf8_start, [((a * 64 + b) * 64 + c) * 64 + e])"
    using continue_seq [of e "0x80" "0xBF" 3 "(a * 64 + b) * 64 + c" 2] e by (simp add: open_seq_def)
  have "run_decoder utf8_start [0xF0 + a, 0x80 + b, 0x80 + c, 0x80 + e] =
          (utf8_start, [((a * 64 + b) * 64 + c) * 64 + e])"
    by (simp only: run_decoder.simps s1 s2 s3 s4 prod.case append.simps)
  then show ?thesis by (simp only: enc cp)
qed

lemma utf8_roundtrip:
  assumes "scalar cp"
  shows "run_decoder utf8_start (utf8 cp) = (utf8_start, [cp])"
proof -
  consider "cp < 0x80" | "0x80 \<le> cp" "cp < 0x800" | "0x800 \<le> cp" "cp < 0x10000"
    | "0x10000 \<le> cp" "cp < 0x110000"
    using assms unfolding scalar_def by linarith
  then show ?thesis
    using assms by cases (simp_all add: utf8_1 utf8_2 utf8_3 utf8_4)
qed

lemma utf8s_roundtrip:
  "list_all scalar cps \<Longrightarrow> run_decoder utf8_start (utf8s cps) = (utf8_start, cps)"
proof (induction cps)
  case Nil
  show ?case by (simp add: utf8s_def)
next
  case (Cons cp cps)
  then have "run_decoder utf8_start (utf8 cp @ utf8s cps) = (utf8_start, cp # cps)"
    by (simp add: run_decoder_append utf8_roundtrip utf8s_def)
  then show ?case by (simp add: utf8s_def)
qed

lemma utf16_newline: "10 \<in> set (utf16 cp) \<longleftrightarrow> cp = 10"
  by (auto simp: utf16_def)

lemma utf16s_newline: "10 \<in> set (utf16s cps) \<longleftrightarrow> 10 \<in> set cps"
  by (induction cps) (auto simp: utf16s_def utf16_newline)

lemma utf16s_Cons: "utf16s (cp # cps) = utf16 cp @ utf16s cps"
  by (simp add: utf16s_def)

lemma utf16s_frame_line: "utf16s (frame_line p) = lit ''data: '' @ utf16s p @ [10]"
  by (simp add: frame_line_def utf16s_append utf16s_Cons lit_def utf16_def) (simp add: utf16s_def)

lemma utf16s_frame_lines:
  "utf16s (concat (map frame_line ps)) =
   concat (map (\<lambda>l. l @ [10]) (map (\<lambda>p. lit ''data: '' @ utf16s p) ps))"
  by (induction ps) (simp_all add: utf16s_append utf16s_frame_line, simp add: utf16s_def)

lemma scalar_frame_line: "list_all scalar p \<Longrightarrow> list_all scalar (frame_line p)"
  by (simp add: frame_line_def lit_def scalar_def)

lemma scalar_frame_lines:
  "\<forall>p \<in> set ps. list_all scalar p \<and> 10 \<notin> set p \<Longrightarrow>
   list_all scalar (concat (map frame_line ps))"
  by (induction ps) (simp_all add: scalar_frame_line)

lemma strip_bom_newline: "10 \<notin> set cps \<Longrightarrow> 10 \<notin> set (strip_bom cps)"
  by (cases cps) simp_all

lemma decode_utf8s:
  "list_all scalar cps \<Longrightarrow>
   snd (decode new_TextDecoder (utf8s cps)) = utf16s (strip_bom cps)"
  by (cases cps) (simp_all add: decode_def new_TextDecoder_def utf8s_roundtrip utf16s_def)

lemma process_frame_line:
  "process_line parse handler s (lit ''data: '' @ payload) =
     (case parse payload of None \<Rightarrow> s | Some event \<Rightarrow> deliver handler s event)"
  by (cases "parse payload") (simp_all add: process_line_def startsWith_def lit_def deliver_def)

lemma deliver_lines:
  "map (\<lambda>p. parse (utf16s p)) payloads = map Some events \<Longrightarrow>
   foldl (process_line parse handler) s (map (\<lambda>p. lit ''data: '' @ utf16s p) payloads) =
   foldl (deliver handler) s events"
proof (induction payloads arbitrary: events s)
  case Nil
  then show ?case by simp
next
  case (Cons p ps)
  then obtain e es where "events = e # es" "parse (utf16s p) = Some e"
    "map (\<lambda>p. parse (utf16s p)) ps = map Some es"
    by (cases events) auto
  with Cons.IH [of es] show ?case by (simp add: process_frame_line)
qed

lemma read_loop_frames:
  assumes wire: "concat chunks = utf8s (concat (map frame_line payloads) @ fragment)"
    and payloads: "\<forall>p \<in> set payloads. list_all scalar p \<and> 10 \<notin> set p"
    and parsed: "map (\<lambda>p. parse (utf16s p)) payloads = map Some events"
    and fragment: "list_all scalar fragment" "10 \<notin> set fragment"
  shows "read_loop parse handler new_TextDecoder [] chunks s = foldl (deliver handler) s events"
proof -
  let ?cps = "concat (map frame_line payloads) @ fragment"
  let ?lines = "map (\<lambda>p. lit ''data: '' @ utf16s p) payloads"
  have sc: "list_all scalar ?cps"
    using scalar_frame_lines [OF payloads] fragment(1) by simp
  have nl: "\<forall>l \<in> set ?lines. 10 \<notin> set l"
    using payloads by (auto simp: utf16s_newline lit_def)
  have "\<exists>rest. 10 \<notin> set rest \<and> snd (decode new_TextDecoder (utf8s ?cps)) =
           concat (map (\<lambda>l. l @ [10]) ?lines) @ rest"
  proof (cases payloads)
    case Nil
    then have "snd (decode new_TextDecoder (utf8s ?cps)) = utf16s (strip_bom fragment)"
      using decode_utf8s [OF sc] by simp
    moreover have "10 \<notin> set (utf16s (strip_bom fragment))"
      using fragment(2) by (simp add: utf16s_newline strip_bom_newline)
    ultimately show ?thesis using Nil by simp
  next
    case (Cons p ps)
    then have "snd (decode new_TextDecoder (utf8s ?cps)) = utf16s ?cps"
      using decode_utf8s [OF sc] by (simp add: frame_line_def lit_def)
    then show ?thesis
      using fragment(2) by (auto simp: utf16s_append utf16s_frame_lines utf16s_newline)
  qed
  then obtain rest where rest: "10 \<notin> set rest"
    "snd (decode new_TextDecoder (concat chunks)) = concat (map (\<lambda>l. l @ [10]) ?lines) @ rest"
    using wire by auto
  have "read_loop parse handler new_TextDecoder [] chunks s =
        foldl (process_line parse handler) s (butlast (split_nl (concat (map (\<lambda>l. l @ [10]) ?lines) @ rest)))"
    using read_loop_text [of "[]" parse handler new_TextDecoder chunks s] rest(2) by simp
  also have "\<dots> = foldl (process_line parse handler) s ?lines"
    using split_nl_lines [OF nl rest(1)] by simp
  also have "\<dots> = foldl (deliver handler) s events"
    using parsed by (rule deliver_lines)
  finally show ?thesis .
qed

text \<open>
  C3. Take any frames (a marker, a payload without a line feed that \<open>JSON.parse\<close>
  accepts, a line feed), followed by any fragment without a line feed, encode them in UTF-8
  and cut the bytes into chunks in any way whatever, inside a character or a line or not.
  The loop hands exactly the frames' events to the handler, in their order, and nothing of
  the fragment, which is dropped when the stream ends. With the handler that records its
  argument this says that the events delivered are exactly those of the frames.
\<close>

theorem frames_delivered:
  assumes "concat chunks = utf8s (concat (map frame_line payloads) @ fragment)"
    and "\<forall>p \<in> set payloads. list_all scalar p \<and> 10 \<notin> set p"
    and "map (\<lambda>p. parse (utf16s p)) payloads = map Some events"
    and "list_all scalar fragment" and "10 \<notin> set fragment"
  shows "read_loop parse handler new_TextDecoder [] chunks s = foldl (deliver handler) s events"
  using assms by (rule read_loop_frames)

text \<open>
  Two frames, one with U+1F916 and one with U+00E9, and the unfinished line \<open>data: x\<close>,
  cut into six chunks inside the marker and inside both characters.
\<close>

theorem frames_delivered_witness:
  "read_loop (\<lambda>payload. Some (JStr payload)) (\<lambda>event trace. Inr (trace @ [event]))
     new_TextDecoder []
     [[100, 97, 116, 97], [58, 32, 0xF0, 0x9F], [0xA4], [0x96, 10, 100, 97, 116, 97, 58, 32, 0xC3],
      [0xA9, 10, 100, 97], [116, 97, 58, 32, 120]] []
   = [JStr [0xD83E, 0xDD16], JStr [0xE9]]"
  using frames_delivered
    [of "[[100, 97, 116, 97], [58, 32, 0xF0, 0x9F], [0xA4], [0x96, 10, 100, 97, 116, 97, 58, 32, 0xC3],
          [0xA9, 10, 100, 97], [116, 97, 58, 32, 120]]"
        "[[0x1F916], [0xE9]]" "lit ''data: x''" "\<lambda>payload. Some (JStr payload)"
        "[JStr [0xD83E, 0xDD16], JStr [0xE9]]"
        "\<lambda>event trace. Inr (trace @ [event])" "[]"]
  by (simp add: utf8s_def utf8_def frame_line_def lit_def scalar_def utf16s_def utf16_def deliver_def)

section \<open>The dispatcher\<close>

lemmas frame_defs =
  progress_frame_def file_result_frame_def summary_frame_def done_frame_def error_frame_def

lemma dispatch_frames:
  "dispatch seen repo s (progress_frame c t f) =
     s\<lparr> analyzeProgress := Some \<lparr> current = JNum c, total = JNum t, file' = JStr f \<rparr> \<rparr>"
  "dispatch seen repo s (file_result_frame f a) =
     s\<lparr> analysisResults := analysisResults s @ [\<lparr> path = JStr f, analysis = JStr a \<rparr>] \<rparr>"
  "dispatch seen repo s (summary_frame tx) =
     s\<lparr> summary := JStr tx,
        messages := messages s @ [assistant (SummaryNotice repo (JStr tx))],
        activeTab := Chat \<rparr>"
  "dispatch seen repo s (done_frame n) =
     (if falsy seen
      then s\<lparr> messages := messages s @ [assistant (FallbackNotice (JNum n) repo)],
              activeTab := Chat \<rparr>
      else s)"
  "dispatch seen repo s (error_frame m) =
     s\<lparr> messages := messages s @ [assistant (ErrorNotice (JStr m))] \<rparr>"
  by (simp_all add: dispatch_def handleSSE_def frame_defs field_def lit_def)

lemma deliver_handleSSE:
  "deliver (\<lambda>event. handleSSE seen event repo) = dispatch seen repo"
  by (intro ext) (simp add: deliver_def dispatch_def)

text \<open>
  C4. From the state \<open>runAnalysis\<close> starts the stream in, the five frames of the example
  give the two results in the order of arrival, the progress of the last progress frame and
  the summary; the completion notice is in the chat and the chat tab is shown. The source
  has no cell for a phase: the recorded summary and the notice are what completion is.
\<close>

theorem example_run:
  "foldl (dispatch seen repo) (start_analysis s0)
     [progress_frame 1 3 (lit ''a.py''), file_result_frame (lit ''a.py'') (lit ''x''),
      progress_frame 2 3 (lit ''b.py''), file_result_frame (lit ''b.py'') (lit ''y''),
      summary_frame (lit ''ok'')]
   = s0\<lparr> isAnalyzing := True,
         analysisResults := [\<lparr> path = JStr (lit ''a.py''), analysis = JStr (lit ''x'') \<rparr>,
                             \<lparr> path = JStr (lit ''b.py''), analysis = JStr (lit ''y'') \<rparr>],
         analyzeProgress :=
           Some \<lparr> current = JNum 2, total = JNum 3, file' = JStr (lit ''b.py'') \<rparr>,
         summary := JStr (lit ''ok''),
         messages := messages s0 @ [assistant (SummaryNotice repo (JStr (lit ''ok'')))],
         activeTab := Chat \<rparr>"
  by (simp add: dispatch_frames start_analysis_def)

lemma dispatch_untyped:
  assumes "list_all (\<lambda>t. \<not> has_type event t) known_types"
  shows "dispatch seen repo s event = s"
  using assms
  by (auto simp: dispatch_def handleSSE_def has_type_def known_types_def split: sum.splits)

lemma process_line_dropped:
  "dropped parse line \<Longrightarrow> process_line parse (\<lambda>event. handleSSE seen event repo) s line = s"
  using dispatch_untyped [of _ seen repo s]
  by (auto simp: process_line_def dropped_def dispatch_def split: option.splits sum.splits)

lemma dropped_lines_filtered:
  "foldl (process_line parse (\<lambda>event. handleSSE seen event repo)) s lines =
   foldl (process_line parse (\<lambda>event. handleSSE seen event repo)) s
     (filter (\<lambda>line. \<not> dropped parse line) lines)"
  by (induction lines arbitrary: s) (simp_all add: process_line_dropped)



lemma dispatch_inert:
  assumes "\<not> has_type event ''progress''" "\<not> has_type event ''file_result''"
    "\<not> has_type event ''summary''"
  shows "analysisResults (dispatch seen repo s event) = analysisResults s"
    and "analyzeProgress (dispatch seen repo s event) = analyzeProgress s"
    and "summary (dispatch seen repo s event) = summary s"
  using assms
  by (auto simp: dispatch_def handleSSE_def has_type_def split: sum.splits)

lemma dispatch_typed:
  "has_type event ''progress'' \<Longrightarrow>
     dispatch seen repo s event =
       s\<lparr> analyzeProgress := Some \<lparr> current = field event ''current'',
                                    total = field event ''total'',
                                    file' = field event ''file'' \<rparr> \<rparr>"
  "has_type event ''file_result'' \<Longrightarrow>
     dispatch seen repo s event =
       s\<lparr> analysisResults := analysisResults s @
             [\<lparr> path = field event ''file'', analysis = field event ''analysis'' \<rparr>] \<rparr>"
  "has_type event ''summary'' \<Longrightarrow>
     dispatch seen repo s event =
       s\<lparr> summary := field event ''summary'',
          messages := messages s @ [assistant (SummaryNotice repo (field event ''summary''))],
          activeTab := Chat \<rparr>"
  "has_type event ''error'' \<Longrightarrow>
     dispatch seen repo s event =
       s\<lparr> messages := messages s @ [assistant (ErrorNotice (field event ''message''))] \<rparr>"
  by (simp_all add: dispatch_def handleSSE_def has_type_def lit_def)

lemma messages_dispatch: "\<exists>ms. messages (dispatch seen repo s event) = messages s @ ms"
  by (cases "get_prop event (lit ''type'')") (simp_all add: dispatch_def handleSSE_def)

lemma messages_grow: "\<exists>ms. messages (foldl (dispatch seen repo) s events) = messages s @ ms"
proof (induction events arbitrary: s)
  case Nil
  show ?case by simp
next
  case (Cons event events)
  obtain ms1 where 1: "messages (dispatch seen repo s event) = messages s @ ms1"
    using messages_dispatch by blast
  obtain ms2 where "messages (foldl (dispatch seen repo) (dispatch seen repo s event) events) =
      messages (dispatch seen repo s event) @ ms2"
    using Cons.IH by blast
  with 1 show ?case by simp
qed

lemma inert_frames:
  assumes "\<forall>event \<in> set events.
             \<not> has_type event ''progress'' \<and> \<not> has_type event ''file_result'' \<and>
             \<not> has_type event ''summary''"
  shows "analysisResults (foldl (dispatch seen repo) s events) = analysisResults s \<and>
         analyzeProgress (foldl (dispatch seen repo) s events) = analyzeProgress s \<and>
         summary (foldl (dispatch seen repo) s events) = summary s"
  using assms
  by (induction events arbitrary: s) (simp_all add: dispatch_inert)

lemma dispatch_null: "dispatch seen repo s JNull = s"
  by (simp add: dispatch_def handleSSE_def)

text \<open>
  C1, as the code has it. \<open>handleSSE\<close> does not look at what was handled before, so the
  state is not frozen by a summary or an error frame. What holds in every state, and so
  after such a frame:
  \<^item> frames that are not of type progress, file\_result or summary (done and error frames,
    and what the dispatcher drops) change neither the results, nor the progress, nor the
    summary;
  \<^item> a progress frame overwrites the progress and a file\_result frame is appended to the
    results, each changing nothing else; a summary frame overwrites the summary and leaves
    the results and the progress as they are;
  \<^item> an error frame appends its notice to the chat and changes nothing else: the session
    stores no error message;
  \<^item> whatever frames follow, the chat only grows: the messages already there, an error
    notice among them, stay in their places as they are.
\<close>

theorem late_frames_keep_results:
  "((\<forall>event \<in> set events.
        \<not> has_type event ''progress'' \<and> \<not> has_type event ''file_result'' \<and>
        \<not> has_type event ''summary'') \<longrightarrow>
      analysisResults (foldl (dispatch seen repo) s events) = analysisResults s \<and>
      analyzeProgress (foldl (dispatch seen repo) s events) = analyzeProgress s \<and>
      summary (foldl (dispatch seen repo) s events) = summary s) \<and>
   (has_type p ''progress'' \<longrightarrow>
      dispatch seen repo s p =
        s\<lparr> analyzeProgress := Some \<lparr> current = field p ''current'', total = field p ''total'',
                                     file' = field p ''file'' \<rparr> \<rparr>) \<and>
   (has_type f ''file_result'' \<longrightarrow>
      dispatch seen repo s f =
        s\<lparr> analysisResults := analysisResults s @
              [\<lparr> path = field f ''file'', analysis = field f ''analysis'' \<rparr>] \<rparr>) \<and>
   (has_type u ''summary'' \<longrightarrow>
      summary (dispatch seen repo s u) = field u ''summary'' \<and>
      analysisResults (dispatch seen repo s u) = analysisResults s \<and>
      analyzeProgress (dispatch seen repo s u) = analyzeProgress s) \<and>
   (has_type e ''error'' \<longrightarrow>
      dispatch seen repo s e =
        s\<lparr> messages := messages s @ [assistant (ErrorNotice (field e ''message''))] \<rparr>) \<and>
   (\<exists>ms. messages (foldl (dispatch seen repo) s frames) = messages s @ ms)"
  using inert_frames [of events seen repo s] messages_grow [of seen repo s frames]
  by (simp add: dispatch_typed)

text \<open>
  After the error frame \<open>boom\<close>: a done frame, an error frame and \<open>null\<close> leave the
  results and the summary; a progress, a file\_result and a summary frame are applied; the
  notice of \<open>boom\<close> stays second in the chat.
\<close>

theorem late_frames_keep_results_witness:
  "analysisResults
     (foldl (dispatch JNull (lit ''o/r''))
        (dispatch JNull (lit ''o/r'') (start_analysis initial_app) (error_frame (lit ''boom'')))
        [done_frame 2, error_frame (lit ''late''), JNull]) = [] \<and>
   summary
     (foldl (dispatch JNull (lit ''o/r''))
        (dispatch JNull (lit ''o/r'') (start_analysis initial_app) (error_frame (lit ''boom'')))
        [done_frame 2, error_frame (lit ''late''), JNull]) = JNull \<and>
   analyzeProgress
     (dispatch JNull (lit ''o/r'')
        (dispatch JNull (lit ''o/r'') (start_analysis initial_app) (error_frame (lit ''boom'')))
        (progress_frame 9 9 (lit ''late.py''))) =
     Some \<lparr> current = JNum 9, total = JNum 9, file' = JStr (lit ''late.py'') \<rparr> \<and>
   analysisResults
     (dispatch JNull (lit ''o/r'')
        (dispatch JNull (lit ''o/r'') (start_analysis initial_app) (error_frame (lit ''boom'')))
        (file_result_frame (lit ''late.py'') (lit ''x''))) =
     [\<lparr> path = JStr (lit ''late.py''), analysis = JStr (lit ''x'') \<rparr>] \<and>
   summary
     (dispatch JNull (lit ''o/r'')
        (dispatch JNull (lit ''o/r'') (start_analysis initial_app) (error_frame (lit ''boom'')))
        (summary_frame (lit ''new''))) = JStr (lit ''new'') \<and>
   messages
     (foldl (dispatch JNull (lit ''o/r''))
        (dispatch JNull (lit ''o/r'') (start_analysis initial_app) (error_frame (lit ''boom'')))
        [progress_frame 9 9 (lit ''late.py''), summary_frame (lit ''new''),
         error_frame (lit ''late'')]) =
     [assistant Welcome, assistant (ErrorNotice (JStr (lit ''boom''))),
      assistant (SummaryNotice (lit ''o/r'') (JStr (lit ''new''))),
      assistant (ErrorNotice (JStr (lit ''late'')))]"
proof -
  have hyps:
    "\<forall>event \<in> set [done_frame 2, error_frame (lit ''late''), JNull].
       \<not> has_type event ''progress'' \<and> \<not> has_type event ''file_result'' \<and>
       \<not> has_type event ''summary''"
    "has_type (progress_frame 9 9 (lit ''late.py'')) ''progress''"
    "has_type (file_result_frame (lit ''late.py'') (lit ''x'')) ''file_result''"
    "has_type (summary_frame (lit ''new'')) ''summary''"
    "has_type (error_frame (lit ''late'')) ''error''"
    by (simp_all add: has_type_def frame_defs lit_def)
  from late_frames_keep_results
    [of "[done_frame 2, error_frame (lit ''late''), JNull]" JNull "lit ''o/r''"
        "dispatch JNull (lit ''o/r'') (start_analysis initial_app) (error_frame (lit ''boom''))"
        "progress_frame 9 9 (lit ''late.py'')" "file_result_frame (lit ''late.py'') (lit ''x'')"
        "summary_frame (lit ''new'')" "error_frame (lit ''late'')"
        "[progress_frame 9 9 (lit ''late.py''), summary_frame (lit ''new''),
          error_frame (lit ''late'')]"]
    hyps
  show ?thesis
    by (simp add: dispatch_frames dispatch_null start_analysis_def initial_app_def assistant_def)
qed

text \<open>
  C1 as stated fails: a file\_result frame after the summary frame is appended to the
  results, and a progress frame after an error frame overwrites the progress.
\<close>

theorem late_frames_counterexample:
  "analysisResults
     (foldl (dispatch JNull (lit ''o/r'')) (start_analysis initial_app)
        [summary_frame (lit ''ok''), file_result_frame (lit ''late.py'') (lit ''x'')])
   \<noteq> analysisResults
     (foldl (dispatch JNull (lit ''o/r'')) (start_analysis initial_app)
        [summary_frame (lit ''ok'')]) \<and>
   analyzeProgress
     (foldl (dispatch JNull (lit ''o/r'')) (start_analysis initial_app)
        [error_frame (lit ''boom''), progress_frame 9 9 (lit ''late.py'')])
   \<noteq> analyzeProgress
     (foldl (dispatch JNull (lit ''o/r'')) (start_analysis initial_app)
        [error_frame (lit ''boom'')])"
  by (simp add: dispatch_frames start_analysis_def initial_app_def)

section \<open>\<open>runAnalysis\<close> on a stream of frames\<close>

lemma ascii_wire:
  "list_all (\<lambda>c. c < 0x80) cps \<Longrightarrow> utf8s cps = cps \<and> utf16s cps = cps \<and> list_all scalar cps"
  by (induction cps) (simp_all add: utf8s_def utf8_def utf16s_def utf16_def scalar_def)

lemma runAnalysis_frames:
  assumes "list_all (\<lambda>p. list_all (\<lambda>c. c < 0x80) p \<and> 10 \<notin> set p) payloads"
    and "map parse payloads = map Some events"
  shows "runAnalysis parse repo (Body [concat (map frame_line payloads)] StreamDone) s =
         (foldl (dispatch (summary s) repo) (start_analysis s) events)
           \<lparr> isAnalyzing := False, analyzeProgress := None \<rparr>"
proof -
  have a: "\<forall>p \<in> set payloads. list_all scalar p \<and> 10 \<notin> set p"
    and u: "map (\<lambda>p. utf16s p) payloads = payloads"
    using assms(1) by (auto simp: list_all_iff ascii_wire [unfolded list_all_iff] intro: map_idI)
  have "list_all (\<lambda>c. c < 0x80) (concat (map frame_line payloads))"
    using assms(1) by (induction payloads) (simp_all add: frame_line_def lit_def)
  then have w: "concat [concat (map frame_line payloads)] =
                utf8s (concat (map frame_line payloads) @ [])"
    by (simp add: ascii_wire)
  have "map (\<lambda>p. parse (utf16s p)) payloads = map parse (map utf16s payloads)"
    by simp
  then have p: "map (\<lambda>p. parse (utf16s p)) payloads = map Some events"
    using assms(2) u by simp
  show ?thesis
    using read_loop_frames [OF w a p, of "\<lambda>event. handleSSE (summary s) event repo"
        "start_analysis s"]
    by (simp add: runAnalysis_def deliver_handleSSE Let_def)
qed

text \<open>
  C2 on the code. The first analysis of a session, its stream being a summary frame and
  then a done frame: the done frame appends the fallback notice after the summary's notice,
  because the \<open>summary\<close> that \<open>handleSSE\<close> tests is the one of the render that started
  \<open>runAnalysis\<close>, still \<open>null\<close>. With the summary frame alone the chat has two
  messages. And in the analysis after that one, a done frame without a summary frame
  appends nothing, the \<open>summary\<close> tested being the earlier analysis's.
\<close>

theorem done_after_summary_appends_notice:
  \<open>messages
     (runAnalysis sample_parse (lit ''o/r'')
        (Body [concat (map frame_line [lit ''{"type":"summary","summary":"ok"}'',
                                       lit ''{"type":"done","total_analyzed":2}''])] StreamDone)
        initial_app)
   = [assistant Welcome,
      assistant (SummaryNotice (lit ''o/r'') (JStr (lit ''ok''))),
      assistant (FallbackNotice (JNum 2) (lit ''o/r''))] \<and>
   messages
     (runAnalysis sample_parse (lit ''o/r'')
        (Body [concat (map frame_line [lit ''{"type":"summary","summary":"ok"}''])] StreamDone)
        initial_app)
   = [assistant Welcome,
      assistant (SummaryNotice (lit ''o/r'') (JStr (lit ''ok'')))] \<and>
   messages
     (runAnalysis sample_parse (lit ''o/r'')
        (Body [concat (map frame_line [lit ''{"type":"done","total_analyzed":2}''])] StreamDone)
        (runAnalysis sample_parse (lit ''o/r'')
           (Body [concat (map frame_line [lit ''{"type":"summary","summary":"ok"}''])] StreamDone)
           initial_app))
   = [assistant Welcome,
      assistant (SummaryNotice (lit ''o/r'') (JStr (lit ''ok'')))]\<close>
proof -
  have both:
    \<open>runAnalysis sample_parse (lit ''o/r'')
        (Body [concat (map frame_line [lit ''{"type":"summary","summary":"ok"}'',
                                       lit ''{"type":"done","total_analyzed":2}''])] StreamDone)
        initial_app =
      (foldl (dispatch (summary initial_app) (lit ''o/r'')) (start_analysis initial_app)
         [summary_frame (lit ''ok''), done_frame 2])
        \<lparr> isAnalyzing := False, analyzeProgress := None \<rparr>\<close>
    by (rule runAnalysis_frames) (simp_all add: sample_parse_def lit_def)
  have first:
    \<open>runAnalysis sample_parse (lit ''o/r'')
        (Body [concat (map frame_line [lit ''{"type":"summary","summary":"ok"}''])] StreamDone)
        initial_app =
      (foldl (dispatch (summary initial_app) (lit ''o/r'')) (start_analysis initial_app)
         [summary_frame (lit ''ok'')])
        \<lparr> isAnalyzing := False, analyzeProgress := None \<rparr>\<close>
    by (rule runAnalysis_frames) (simp_all add: sample_parse_def lit_def)
  have second:
    \<open>runAnalysis sample_parse (lit ''o/r'')
        (Body [concat (map frame_line [lit ''{"type":"done","total_analyzed":2}''])] StreamDone) s =
      (foldl (dispatch (summary s) (lit ''o/r'')) (start_analysis s) [done_frame 2])
        \<lparr> isAnalyzing := False, analyzeProgress := None \<rparr>\<close> for s
    by (rule runAnalysis_frames) (simp_all add: sample_parse_def lit_def)
  show ?thesis
    unfolding both second unfolding first
    by (simp add: dispatch_frames initial_app_def start_analysis_def assistant_def lit_def)
qed

section \<open>The terminal panel\<close>

lemmas terminal_defs =
  handleSubmit_def runCommand_def askAI_def addLine_def approvePending_def network_error_def
  runCommand_answered_def runCommand_resolved_def askAI_answered_def resume_def

lemma at_most_one_initial: "at_most_one initial_terminal"
  by (simp add: at_most_one_def initial_terminal_def)

lemma at_most_one_resume:
  assumes "loading s" "truthy (pending s) = None" "awaiting s = []"
  shows "at_most_one (resume k a s)"
proof (cases k)
  case (AwaitRun cmd cwd0)
  then show ?thesis using assms
    by (cases a) (auto simp: at_most_one_def terminal_defs Let_def split: option.splits)
next
  case AwaitResolve
  then show ?thesis using assms
    by (cases a) (auto simp: at_most_one_def terminal_defs split: option.splits)
next
  case AwaitSuggestion
  then show ?thesis using assms
    by (cases a) (auto simp: at_most_one_def terminal_defs split: option.splits)
qed

lemma at_most_one_step: "at_most_one s \<Longrightarrow> at_most_one (step s ev)"
proof (cases ev)
  case (Answer i a)
  assume inv: "at_most_one s"
  show ?thesis
  proof (cases "i < length (awaiting s)")
    case True
    with inv have one: "length (awaiting s) = 1" "loading s" "truthy (pending s) = None" "i = 0"
      by (auto simp: at_most_one_def)
    then have "take i (awaiting s) @ drop (Suc i) (awaiting s) = []" by simp
    with one show ?thesis
      using at_most_one_resume [of "s\<lparr> awaiting := [] \<rparr>" "awaiting s ! 0" a] Answer True
      by simp
  next
    case False
    with inv Answer show ?thesis by simp
  qed
qed (auto simp: at_most_one_def terminal_defs Let_def split: option.splits)

lemma at_most_one_run: "at_most_one s \<Longrightarrow> at_most_one (run s evs)"
  unfolding run_def by (induction evs arbitrary: s) (simp_all add: at_most_one_step)

lemmas string_defs = trim_def trimEnd_def is_space_def lit_def looksRaw_def raw_verbs_def
  startsWith_def is_word_char_def

lemma truthy_Some: "c \<noteq> [] \<Longrightarrow> truthy (Some c) = Some c"
  by (cases c) simp_all

text \<open>
  C6. From any state with nothing in flight, in AI mode: the user asks for something, the
  backend suggests \<open>A\<close>, the user asks again, the backend suggests \<open>B\<close> (a command,
  so not the empty string, for which no Run button is rendered), the user clicks Run. The
  requests sent are the two questions and one execution, of \<open>B\<close>; nothing is pending
  afterwards and the one call in flight is the execution of \<open>B\<close>. A suggestion that
  arrives replaces the pending one.
\<close>

theorem newest_proposal_executed:
  assumes "awaiting s = []" and "\<not> loading s" and "mode s = Ai"
    and "trim p1 \<noteq> []" and "\<not> looksRaw (trim p1)"
    and "trim p2 \<noteq> []" and "\<not> looksRaw (trim p2)"
    and "B \<noteq> []"
  shows "requests (run s [Typed p1, Submit, Answer 0 (suggestion A),
                          Typed p2, Submit, Answer 0 (suggestion B), Approve]) =
           requests s @ [AiRequest (trim p1) (cwd s), AiRequest (trim p2) (cwd s),
                         RunRequest B (cwd s)] \<and>
         pending (run s [Typed p1, Submit, Answer 0 (suggestion A),
                         Typed p2, Submit, Answer 0 (suggestion B), Approve]) = None \<and>
         awaiting (run s [Typed p1, Submit, Answer 0 (suggestion A),
                          Typed p2, Submit, Answer 0 (suggestion B), Approve]) =
           [AwaitRun B (cwd s)] \<and>
         pending (askAI_answered (suggestion B) (s0\<lparr> pending := Some A \<rparr>)) = Some B"
  using assms
  by (simp add: run_def terminal_defs Let_def suggestion_def truthy_Some)

theorem newest_proposal_executed_witness:
  "requests (run initial_terminal
     [Typed (lit ''show files''), Submit, Answer 0 (suggestion (lit ''ls'')),
      Typed (lit ''delete the build folder''), Submit,
      Answer 0 (suggestion (lit ''rm -rf build'')), Approve]) =
   [AiRequest (lit ''show files'') (lit ''/workspaces''),
    AiRequest (lit ''delete the build folder'') (lit ''/workspaces''),
    RunRequest (lit ''rm -rf build'') (lit ''/workspaces'')]"
  using newest_proposal_executed
    [of initial_terminal "lit ''show files''" "lit ''delete the build folder''"
        "lit ''rm -rf build''" "lit ''ls''" initial_terminal]
  by (simp add: initial_terminal_def string_defs)

text \<open>
  C7. With no suggestion pending the Run button does nothing. After one suggestion, a
  second click on Run changes nothing more: the command is requested once.
\<close>

theorem approve_without_pending:
  assumes "truthy (pending s) = None" and "awaiting s' = [AwaitSuggestion]" and "A \<noteq> []"
  shows "step s Approve = s \<and>
         run s' [Answer 0 (suggestion A), Approve, Approve] =
           run s' [Answer 0 (suggestion A), Approve] \<and>
         requests (run s' [Answer 0 (suggestion A), Approve, Approve]) =
           requests s' @ [RunRequest A (cwd s')]"
  using assms
  by (simp add: run_def terminal_defs Let_def suggestion_def truthy_Some)

theorem approve_without_pending_witness:
  "step initial_terminal Approve = initial_terminal \<and>
   requests (run (run initial_terminal [Typed (lit ''show files''), Submit])
               [Answer 0 (suggestion (lit ''ls'')), Approve, Approve]) =
     [AiRequest (lit ''show files'') (lit ''/workspaces''),
      RunRequest (lit ''ls'') (lit ''/workspaces'')]"
proof -
  have s': "awaiting (run initial_terminal [Typed (lit ''show files''), Submit]) = [AwaitSuggestion]"
    "requests (run initial_terminal [Typed (lit ''show files''), Submit]) =
       [AiRequest (lit ''show files'') (lit ''/workspaces'')]"
    "cwd (run initial_terminal [Typed (lit ''show files''), Submit]) = lit ''/workspaces''"
    by (simp_all add: run_def initial_terminal_def terminal_defs string_defs Let_def)
  have "truthy (pending initial_terminal) = None" "lit ''ls'' \<noteq> []"
    by (simp_all add: initial_terminal_def lit_def)
  from approve_without_pending [OF this(1) s'(1) this(2)]
  have "step initial_terminal Approve = initial_terminal"
    and "requests (run (run initial_terminal [Typed (lit ''show files''), Submit])
                     [Answer 0 (suggestion (lit ''ls'')), Approve, Approve]) =
         requests (run initial_terminal [Typed (lit ''show files''), Submit]) @
           [RunRequest (lit ''ls'') (cwd (run initial_terminal [Typed (lit ''show files''), Submit]))]"
    by blast+
  then show ?thesis
    by (simp only: s' append.simps simp_thms)
qed

subsection \<open>The working directory\<close>

lemma cwd_resume_run:
  "cwd (runCommand_answered cmd cwd0 a s) = cwd s"
  by (cases a) (simp_all add: terminal_defs Let_def split: option.splits)

lemma cwd_resume_ai: "cwd (askAI_answered a s) = cwd s"
  by (cases a) (simp_all add: terminal_defs split: option.splits)

lemma cwd_resume_resolve:
  "cwd (runCommand_resolved a s) =
     (case a of Threw _ \<Rightarrow> cwd s
      | Json d \<Rightarrow> (case truthy (stdout d) of None \<Rightarrow> cwd s | Some t \<Rightarrow> trim t))"
  by (cases a) (simp_all add: terminal_defs split: option.splits)

lemma cwd_changes:
  assumes "cwd (step s ev) \<noteq> cwd s"
  shows "\<exists>j d t. ev = Answer j (Json d) \<and> j < length (awaiting s) \<and>
           awaiting s ! j = AwaitResolve \<and> truthy (stdout d) = Some t \<and>
           cwd (step s ev) = trim t"
proof (cases ev)
  case (Answer j a)
  with assms have j: "j < length (awaiting s)" by (auto split: if_splits)
  show ?thesis
  proof (cases "awaiting s ! j")
    case (AwaitRun cmd cwd0)
    with assms Answer j show ?thesis by (simp add: resume_def cwd_resume_run)
  next
    case AwaitSuggestion
    with assms Answer j show ?thesis by (simp add: resume_def cwd_resume_ai)
  next
    case AwaitResolve
    with assms Answer j show ?thesis
      by (cases a) (auto simp: resume_def cwd_resume_resolve split: option.splits)
  qed
qed (use assms in \<open>auto simp: terminal_defs Let_def split: option.splits if_splits\<close>)

lemma answered_run:
  assumes "i < length (awaiting s)" and "awaiting s ! i = AwaitRun cmd cwd0"
  shows "cwd (step s (Answer i a)) = cwd s \<and>
         (if executed_cd cmd a
          then (\<exists>dir. requests (step s (Answer i a)) = requests s @ [RunRequest (lit ''pwd'') dir]) \<and>
               awaiting (step s (Answer i a)) =
                 take i (awaiting s) @ drop (Suc i) (awaiting s) @ [AwaitResolve] \<and>
               loading (step s (Answer i a)) = loading s
          else requests (step s (Answer i a)) = requests s \<and>
               awaiting (step s (Answer i a)) = take i (awaiting s) @ drop (Suc i) (awaiting s) \<and>
               \<not> loading (step s (Answer i a)))"
  using assms
  by (cases a) (auto simp: executed_cd_def terminal_defs Let_def split: option.splits)

lemma answered_resolve:
  assumes "i < length (awaiting s)" and "awaiting s ! i = AwaitResolve"
  shows "cwd (step s (Answer i a)) =
           (case a of Threw _ \<Rightarrow> cwd s
            | Json d \<Rightarrow> (case truthy (stdout d) of None \<Rightarrow> cwd s | Some t \<Rightarrow> trim t)) \<and>
         requests (step s (Answer i a)) = requests s"
  using assms
  by (cases a) (auto simp: terminal_defs split: option.splits)

lemma awaiting_rest: "set (take i xs @ drop (Suc i) xs) \<subseteq> set xs"
  using set_take_subset [of i xs] set_drop_subset [of "Suc i" xs] by auto

lemma resolve_origin:
  assumes "AwaitResolve \<in> set (awaiting (step s ev))" and "AwaitResolve \<notin> set (awaiting s)"
  shows "\<exists>j cmd cwd0 a. ev = Answer j a \<and> j < length (awaiting s) \<and>
           awaiting s ! j = AwaitRun cmd cwd0 \<and> executed_cd cmd a"
proof (cases ev)
  case (Answer j a)
  with assms have j: "j < length (awaiting s)" by (auto split: if_splits)
  have rest: "AwaitResolve \<notin> set (take j (awaiting s) @ drop (Suc j) (awaiting s))"
    using assms(2) awaiting_rest [of j "awaiting s"] by blast
  show ?thesis
  proof (cases "awaiting s ! j")
    case (AwaitRun cmd cwd0)
    have "executed_cd cmd a"
    proof (rule ccontr)
      assume "\<not> executed_cd cmd a"
      with answered_run [OF j AwaitRun, of a] rest assms(1) Answer show False by simp
    qed
    with Answer j AwaitRun show ?thesis by blast
  next
    case AwaitResolve
    with j assms(2) show ?thesis using nth_mem [of j "awaiting s"] by simp
  next
    case AwaitSuggestion
    with assms(1) Answer j rest show ?thesis
      by (cases a) (auto simp: terminal_defs split: option.splits)
  qed
qed (use assms in \<open>auto simp: terminal_defs Let_def split: option.splits if_splits\<close>)

lemma cwd_run_unanswered:
  "\<forall>ev \<in> set evs. (case ev of Answer _ _ \<Rightarrow> False | _ \<Rightarrow> True) \<Longrightarrow> cwd (run s evs) = cwd s"
proof (induction evs arbitrary: s)
  case Nil
  show ?case by (simp add: run_def)
next
  case (Cons ev evs)
  have "cwd (step s ev) = cwd s"
    using cwd_changes [of s ev] Cons.prems by (cases ev) auto
  with Cons show ?case by (simp add: run_def)
qed

text \<open>
  C8. In every state, idle or not, the working directory changes in one event only: the
  answer to a resolving request that reports a directory, and then it becomes that report,
  trimmed; so submitting or approving a command never changes it, and no run of events
  without an answer does. When the answer to a command arrives the directory stays as it
  is; if the command is a change of directory that came back without an error, one request
  \<open>pwd\<close> is sent and awaited (\<open>loading\<close> stays set), and otherwise none is. The answer
  to the resolving request sets the directory to what it reports and sends nothing. A
  resolving request comes into being in that way only.
\<close>

theorem working_directory_confirmed:
  "(cwd (step s ev) \<noteq> cwd s \<longrightarrow>
      (\<exists>j d t. ev = Answer j (Json d) \<and> j < length (awaiting s) \<and>
         awaiting s ! j = AwaitResolve \<and> truthy (stdout d) = Some t \<and>
         cwd (step s ev) = trim t)) \<and>
   (i < length (awaiting s) \<and> awaiting s ! i = AwaitRun cmd cwd0 \<longrightarrow>
      cwd (step s (Answer i a)) = cwd s \<and>
      (if executed_cd cmd a
       then (\<exists>dir. requests (step s (Answer i a)) =
                      requests s @ [RunRequest (lit ''pwd'') dir]) \<and>
            awaiting (step s (Answer i a)) =
              take i (awaiting s) @ drop (Suc i) (awaiting s) @ [AwaitResolve] \<and>
            loading (step s (Answer i a)) = loading s
       else requests (step s (Answer i a)) = requests s \<and>
            awaiting (step s (Answer i a)) =
              take i (awaiting s) @ drop (Suc i) (awaiting s) \<and>
            \<not> loading (step s (Answer i a)))) \<and>
   (i < length (awaiting s) \<and> awaiting s ! i = AwaitResolve \<longrightarrow>
      cwd (step s (Answer i a)) =
        (case a of Threw _ \<Rightarrow> cwd s
         | Json d \<Rightarrow> (case truthy (stdout d) of None \<Rightarrow> cwd s | Some t \<Rightarrow> trim t)) \<and>
      requests (step s (Answer i a)) = requests s) \<and>
   (AwaitResolve \<in> set (awaiting (step s ev)) \<and> AwaitResolve \<notin> set (awaiting s) \<longrightarrow>
      (\<exists>j c c0 b. ev = Answer j b \<and> j < length (awaiting s) \<and>
         awaiting s ! j = AwaitRun c c0 \<and> executed_cd c b)) \<and>
   ((\<forall>ev \<in> set evs. (case ev of Answer _ _ \<Rightarrow> False | _ \<Rightarrow> True)) \<longrightarrow>
      cwd (run s evs) = cwd s)"
  using cwd_changes [of s ev] answered_run [of i s cmd cwd0 a]
    answered_resolve [of i s a] resolve_origin [of s ev] cwd_run_unanswered [of evs s]
  by blast

text \<open>
  Submitting \<open>cd /tmp\<close> from the idle panel leaves the directory; so does the answer to
  \<open>cd src\<close>, which sends the resolving request; the answer to that one sets it.
\<close>

theorem working_directory_confirmed_witness:
  "cwd (step (initial_terminal\<lparr> input := lit ''cd /tmp'' \<rparr>) Submit) = lit ''/workspaces'' \<and>
   requests (step (run initial_terminal [Typed (lit ''cd src''), Submit])
       (Answer 0 (Json \<lparr> stdout = None, stderr = None, error = None, command = None \<rparr>))) =
     [RunRequest (lit ''cd src'') (lit ''/workspaces''),
      RunRequest (lit ''pwd'') (lit ''/workspaces/src'')] \<and>
   cwd (step (run initial_terminal [Typed (lit ''cd src''), Submit])
       (Answer 0 (Json \<lparr> stdout = None, stderr = None, error = None, command = None \<rparr>))) =
     lit ''/workspaces'' \<and>
   cwd (run initial_terminal
       [Typed (lit ''cd src''), Submit,
        Answer 0 (Json \<lparr> stdout = None, stderr = None, error = None, command = None \<rparr>),
        Answer 0 (printed (lit ''/workspaces/repo/src'' @ [10]))]) =
     lit ''/workspaces/repo/src''"
  using working_directory_confirmed
    [of "initial_terminal\<lparr> input := lit ''cd /tmp'' \<rparr>" Submit]
    working_directory_confirmed
    [of "run initial_terminal [Typed (lit ''cd src''), Submit]"
        "Answer 0 (Json \<lparr> stdout = None, stderr = None, error = None, command = None \<rparr>)" 0
        "lit ''cd src''" "lit ''/workspaces''"
        "Json \<lparr> stdout = None, stderr = None, error = None, command = None \<rparr>"]
  by (simp add: run_def initial_terminal_def terminal_defs string_defs Let_def printed_def)

subsection \<open>One call at a time\<close>

text \<open>
  C9. In every state the panel can reach, while a call is in flight it is the only one, and
  a submission changes nothing at all: no request, no line of history, no other call. The
  same holds for a click on Run.
\<close>

theorem submission_rejected_in_flight:
  assumes "s = run initial_terminal evs" and "awaiting s \<noteq> []"
  shows "step s Submit = s \<and> step s Approve = s \<and> length (awaiting s) = 1"
proof -
  have "at_most_one s"
    using assms(1) at_most_one_run [OF at_most_one_initial] by simp
  with assms(2) have "loading s" "truthy (pending s) = None" "length (awaiting s) = 1"
    by (auto simp: at_most_one_def)
  then show ?thesis by (simp add: handleSubmit_def Let_def)
qed

theorem submission_rejected_in_flight_witness:
  "step (run initial_terminal [Typed (lit ''ls -la''), Submit, QuickCmd ''pwd'']) Submit =
     run initial_terminal [Typed (lit ''ls -la''), Submit, QuickCmd ''pwd''] \<and>
   awaiting (run initial_terminal [Typed (lit ''ls -la''), Submit, QuickCmd ''pwd'']) =
     [AwaitRun (lit ''ls -la'') (lit ''/workspaces'')] \<and>
   input (run initial_terminal [Typed (lit ''ls -la''), Submit, QuickCmd ''pwd'']) = lit ''pwd''"
proof -
  have run: "awaiting (run initial_terminal [Typed (lit ''ls -la''), Submit, QuickCmd ''pwd'']) =
     [AwaitRun (lit ''ls -la'') (lit ''/workspaces'')] \<and>
   input (run initial_terminal [Typed (lit ''ls -la''), Submit, QuickCmd ''pwd'']) = lit ''pwd''"
    by (simp add: run_def initial_terminal_def terminal_defs string_defs QUICK_CMDS_def Let_def)
  with submission_rejected_in_flight
    [of "run initial_terminal [Typed (lit ''ls -la''), Submit, QuickCmd ''pwd'']"
        "[Typed (lit ''ls -la''), Submit, QuickCmd ''pwd'']"]
  show ?thesis by simp
qed

text \<open>
  C10. A submission that is accepted (some input left after trimming, nothing loading)
  clears the pending suggestion whatever the mode and however the input is classified;
  the one request it sends is for the input, and a click on Run right after does nothing.
\<close>

theorem submit_discards_pending:
  assumes "trim (input s) \<noteq> []" and "\<not> loading s"
  shows "pending (handleSubmit s) = None \<and>
         requests (handleSubmit s) = requests s @
           [if mode s = Raw \<or> looksRaw (trim (input s))
            then RunRequest (trim (input s)) (cwd s) else AiRequest (trim (input s)) (cwd s)] \<and>
         step (handleSubmit s) Approve = handleSubmit s"
  using assms by (simp add: terminal_defs Let_def)

theorem submit_discards_pending_witness:
  "pending (handleSubmit (initial_terminal\<lparr> pending := Some (lit ''rm -rf build''),
                                          input := lit ''git status'' \<rparr>)) = None \<and>
   requests (handleSubmit (initial_terminal\<lparr> pending := Some (lit ''rm -rf build''),
                                          input := lit ''git status'' \<rparr>)) =
     [RunRequest (lit ''git status'') (lit ''/workspaces'')]"
  using submit_discards_pending
    [of "initial_terminal\<lparr> pending := Some (lit ''rm -rf build''), input := lit ''git status'' \<rparr>"]
  by (simp add: initial_terminal_def string_defs)

end
